theory Spec2Isabelle
  imports Main "HOL-Library.Multiset" "HOL-Library.Char_ord" "HOL-Library.List_Lexorder"
begin

section \<open>JSON values\<close>

text \<open>
  The values that \<^verbatim>\<open>json.dumps\<close> prints and \<^verbatim>\<open>json.loads\<close> returns: Python's
  \<^verbatim>\<open>None\<close>, \<^verbatim>\<open>bool\<close>, \<^verbatim>\<open>int\<close> (unbounded), \<^verbatim>\<open>str\<close>, \<^verbatim>\<open>list\<close> and \<^verbatim>\<open>dict\<close> with string keys.
  A dict is the list of its items in insertion order; its keys are distinct
  (\<open>wf_json\<close>). A character is a code point below 256. Floating-point numbers are
  not part of the model, nor are CPython's limits on the depth of nesting and on the
  number of digits of an integer.
\<close>

datatype json =
    JNull
  | JBool bool
  | JInt int
  | JStr string
  | JList "json list"
  | JObj "(string \<times> json) list"

type_synonym dict = "(string \<times> json) list"

fun wf_json :: "json \<Rightarrow> bool" where
  "wf_json (JList xs) = list_all wf_json xs"
| "wf_json (JObj kvs) = (distinct (map fst kvs) \<and> list_all (\<lambda>kv. wf_json (snd kv)) kvs)"
| "wf_json _ = True"

text \<open>Python's truth value of an object, as \<^verbatim>\<open>if x:\<close>, \<^verbatim>\<open>not x\<close> and \<^verbatim>\<open>x or y\<close> test it.\<close>

fun truthy :: "json \<Rightarrow> bool" where
  "truthy JNull = False"
| "truthy (JBool b) = b"
| "truthy (JInt i) = (i \<noteq> 0)"
| "truthy (JStr s) = (s \<noteq> [])"
| "truthy (JList xs) = (xs \<noteq> [])"
| "truthy (JObj kvs) = (kvs \<noteq> [])"

text \<open>\<^verbatim>\<open>type(x).__name__\<close>, as Python's error messages print it.\<close>

fun type_name :: "json \<Rightarrow> string" where
  "type_name JNull = ''NoneType''"
| "type_name (JBool b) = ''bool''"
| "type_name (JInt i) = ''int''"
| "type_name (JStr s) = ''str''"
| "type_name (JList xs) = ''list''"
| "type_name (JObj kvs) = ''dict''"

text \<open>\<^verbatim>\<open>d[k] = v\<close> on a dict: an existing key keeps its place, a new key goes last.\<close>

fun setitem :: "dict \<Rightarrow> string \<Rightarrow> json \<Rightarrow> dict" where
  "setitem [] k v = [(k, v)]"
| "setitem ((k', v') # kvs) k v =
     (if k' = k then (k, v) # kvs else (k', v') # setitem kvs k v)"

section \<open>\<^verbatim>\<open>json.dumps\<close>\<close>

text \<open>\<^verbatim>\<open>str(n)\<close> for an integer: decimal digits, a minus sign when negative.\<close>

definition digit_char :: "nat \<Rightarrow> char" where
  "digit_char d = char_of (48 + d)"

fun str_nat :: "nat \<Rightarrow> string" where
  "str_nat n = (if n < 10 then [digit_char n] else str_nat (n div 10) @ [digit_char (n mod 10)])"

declare str_nat.simps [simp del]

definition str_int :: "int \<Rightarrow> string" where
  "str_int i = (if i < 0 then CHR ''-'' # str_nat (nat (- i)) else str_nat (nat i))"

text \<open>
  String encoding with \<^verbatim>\<open>ensure_ascii=True\<close> (the default): the quote and the backslash
  are escaped, backspace, form feed, newline, carriage return and tab have their short
  escapes, every other character outside \<^verbatim>\<open>' '..'~'\<close> is printed as \<^verbatim>\<open>\u00xx\<close> in
  lower-case hexadecimal.
\<close>

definition hex_char :: "nat \<Rightarrow> char" where
  "hex_char d = (if d < 10 then char_of (48 + d) else char_of (87 + d))"

definition escape_char :: "char \<Rightarrow> string" where
  "escape_char c =
     (let n = (of_char c :: nat) in
      if n = 0x22 then [CHR 0x5C, CHR 0x22]
      else if n = 0x5C then [CHR 0x5C, CHR 0x5C]
      else if n = 0x08 then [CHR 0x5C, CHR ''b'']
      else if n = 0x0C then [CHR 0x5C, CHR ''f'']
      else if n = 0x0A then [CHR 0x5C, CHR ''n'']
      else if n = 0x0D then [CHR 0x5C, CHR ''r'']
      else if n = 0x09 then [CHR 0x5C, CHR ''t'']
      else if 0x20 \<le> n \<and> n \<le> 0x7E then [c]
      else [CHR 0x5C, CHR ''u'', CHR ''0'', CHR ''0'', hex_char (n div 16), hex_char (n mod 16)])"

definition encode_basestring_ascii :: "string \<Rightarrow> string" where
  "encode_basestring_ascii s = CHR 0x22 # concat (map escape_char s) @ [CHR 0x22]"

text \<open>\<^verbatim>\<open>sep.join(parts)\<close>.\<close>

fun join :: "string \<Rightarrow> string list \<Rightarrow> string" where
  "join sep [] = []"
| "join sep [x] = x"
| "join sep (x # y # ys) = x @ sep @ join sep (y # ys)"

text \<open>
  \<^verbatim>\<open>json.dumps(obj, sort_keys=sk, separators=(item_sep, key_sep))\<close>. With
  \<^verbatim>\<open>sort_keys\<close> the items of every dict, nested ones too, are printed in the order of
  their keys (Python compares strings code point by code point, a proper prefix first,
  which is the lexicographic order on \<open>string\<close>).
\<close>

lemma size_item_less: "kv \<in> set kvs \<Longrightarrow> size (snd kv) < size (JObj kvs)"
  by (induction kvs) (auto simp: less_Suc_eq)

function dumps :: "bool \<Rightarrow> string \<Rightarrow> string \<Rightarrow> json \<Rightarrow> string" where
  "dumps sk isep ksep JNull = ''null''"
| "dumps sk isep ksep (JBool b) = (if b then ''true'' else ''false'')"
| "dumps sk isep ksep (JInt i) = str_int i"
| "dumps sk isep ksep (JStr s) = encode_basestring_ascii s"
| "dumps sk isep ksep (JList xs) =
     CHR ''['' # join isep (map (dumps sk isep ksep) xs) @ '']''"
| "dumps sk isep ksep (JObj kvs) =
     CHR ''{'' # join isep
        (map (\<lambda>kv. encode_basestring_ascii (fst kv) @ ksep @ dumps sk isep ksep (snd kv))
           (if sk then sort_key fst kvs else kvs)) @ ''}''"
  by pat_completeness auto
termination
proof (relation "measure (\<lambda>(sk, isep, ksep, v). size v)")
  fix sk :: bool and isep ksep :: string and kvs :: dict and x
  assume "x \<in> set (if sk then sort_key fst kvs else kvs)"
  then have "x \<in> set kvs" by (simp split: if_splits)
  then show "((sk, isep, ksep, snd x), (sk, isep, ksep, JObj kvs))
      \<in> measure (\<lambda>(sk, isep, ksep, v). size v)"
    using size_item_less [of x kvs] by simp
qed (auto simp: less_Suc_eq_le size_list_estimation')

text \<open>\<^verbatim>\<open>json.dumps(data)\<close>: the default separators, keys in insertion order.\<close>

definition json_dumps :: "json \<Rightarrow> string" where
  "json_dumps d = dumps False '', '' '': '' d"

text \<open>\<^verbatim>\<open>json.dumps(params, sort_keys=True, separators=(",", ":"))\<close>.\<close>

definition json_dumps_canonical :: "json \<Rightarrow> string" where
  "json_dumps_canonical d = dumps True '','' '':'' d"

lemma dumps_nonempty: "dumps sk isep ksep v \<noteq> []"
  by (cases v) (auto simp: str_int_def encode_basestring_ascii_def str_nat.simps[of "nat x" for x])

section \<open>A decoder for the texts of \<^verbatim>\<open>json.dumps\<close>\<close>

text \<open>
  \<open>loads\<close> follows the scanner of \<^verbatim>\<open>json.loads\<close> on the values of the model: white space
  is a space, tab, newline or carriage return; a string ends at the next quote, a
  backslash starts one of the escapes \<^verbatim>\<open>" \ / b f n r t uXXXX\<close>, a control character is
  refused; a repeated key of an object keeps its first place and its last value; a text
  with anything but white space after the value is refused. \<open>None\<close> is
  \<^verbatim>\<open>JSONDecodeError\<close>. A text with a float literal or with a \<^verbatim>\<open>\u\<close> escape above
  \<^verbatim>\<open>00ff\<close> denotes a value outside the model and is refused as well. The first argument
  of the three parsing functions bounds the number of nested calls; \<open>loads\<close> starts
  them with one more than the length of the text, which is enough for every text that
  \<open>json_dumps\<close> prints.
\<close>

definition is_ws :: "char \<Rightarrow> bool" where
  "is_ws c = (c = CHR '' '' \<or> c = CHR 0x09 \<or> c = CHR 0x0A \<or> c = CHR 0x0D)"

definition skip_ws :: "string \<Rightarrow> string" where
  "skip_ws s = dropWhile is_ws s"

definition is_digit :: "char \<Rightarrow> bool" where
  "is_digit c = (48 \<le> (of_char c :: nat) \<and> (of_char c :: nat) \<le> 57)"

definition digit_val :: "char \<Rightarrow> nat" where
  "digit_val c = of_char c - 48"

definition nat_of_digits :: "string \<Rightarrow> nat" where
  "nat_of_digits ds = foldl (\<lambda>a c. 10 * a + digit_val c) 0 ds"

definition scan_nat :: "string \<Rightarrow> (nat \<times> string) option" where
  "scan_nat s =
     (case s of
        [] \<Rightarrow> None
      | c # cs \<Rightarrow>
          if c = CHR ''0'' then Some (0, cs)
          else if is_digit c then Some (nat_of_digits (takeWhile is_digit s), dropWhile is_digit s)
          else None)"

definition scan_int :: "string \<Rightarrow> (int \<times> string) option" where
  "scan_int s =
     (case s of
        [] \<Rightarrow> None
      | c # cs \<Rightarrow>
          if c = CHR ''-'' then map_option (\<lambda>(n, rest). (- int n, rest)) (scan_nat cs)
          else map_option (\<lambda>(n, rest). (int n, rest)) (scan_nat s))"

definition hex_val :: "char \<Rightarrow> nat option" where
  "hex_val c =
     (let n = (of_char c :: nat)
      in if 48 \<le> n \<and> n \<le> 57 then Some (n - 48)
         else if 97 \<le> n \<and> n \<le> 102 then Some (n - 87)
         else if 65 \<le> n \<and> n \<le> 70 then Some (n - 55)
         else None)"

definition unescape :: "char \<Rightarrow> char option" where
  "unescape e =
     (if e = CHR 0x22 then Some (CHR 0x22)
      else if e = CHR 0x5C then Some (CHR 0x5C)
      else if e = CHR ''/'' then Some (CHR ''/'')
      else if e = CHR ''b'' then Some (CHR 0x08)
      else if e = CHR ''f'' then Some (CHR 0x0C)
      else if e = CHR ''n'' then Some (CHR 0x0A)
      else if e = CHR ''r'' then Some (CHR 0x0D)
      else if e = CHR ''t'' then Some (CHR 0x09)
      else None)"

definition cons_result :: "char \<Rightarrow> (string \<times> string) option \<Rightarrow> (string \<times> string) option" where
  "cons_result c r = map_option (\<lambda>(str, rest). (c # str, rest)) r"

fun scan_string :: "string \<Rightarrow> (string \<times> string) option" where
  "scan_string [] = None"
| "scan_string (c # cs) =
     (if c = CHR 0x22 then Some ([], cs)
      else if c = CHR 0x5C then
        (case cs of
           [] \<Rightarrow> None
         | e # r \<Rightarrow>
             if e = CHR ''u'' then
               (case r of
                  h1 # h2 # h3 # h4 # r' \<Rightarrow>
                    (case (hex_val h1, hex_val h2, hex_val h3, hex_val h4) of
                       (Some x, Some y, Some z, Some w) \<Rightarrow>
                         if ((x * 16 + y) * 16 + z) * 16 + w < 256
                         then cons_result (char_of (((x * 16 + y) * 16 + z) * 16 + w)) (scan_string r')
                         else None
                     | _ \<Rightarrow> None)
                | _ \<Rightarrow> None)
             else (case unescape e of
                     None \<Rightarrow> None
                   | Some ch \<Rightarrow> cons_result ch (scan_string r)))
      else if (of_char c :: nat) < 32 then None
      else cons_result c (scan_string cs))"

fun parse_value :: "nat \<Rightarrow> string \<Rightarrow> (json \<times> string) option"
  and parse_elements :: "nat \<Rightarrow> json list \<Rightarrow> string \<Rightarrow> (json \<times> string) option"
  and parse_members :: "nat \<Rightarrow> dict \<Rightarrow> string \<Rightarrow> (json \<times> string) option" where
  "parse_value 0 s = None"
| "parse_value (Suc n) s =
     (case skip_ws s of
        [] \<Rightarrow> None
      | c # cs \<Rightarrow>
          if c = CHR 0x22 then map_option (\<lambda>(str, rest). (JStr str, rest)) (scan_string cs)
          else if c = CHR ''{'' then
            (case skip_ws cs of
               [] \<Rightarrow> None
             | d # ds \<Rightarrow> if d = CHR ''}'' then Some (JObj [], ds) else parse_members n [] (d # ds))
          else if c = CHR ''['' then
            (case skip_ws cs of
               [] \<Rightarrow> None
             | d # ds \<Rightarrow> if d = CHR '']'' then Some (JList [], ds) else parse_elements n [] (d # ds))
          else if take 4 (c # cs) = ''null'' then Some (JNull, drop 4 (c # cs))
          else if take 4 (c # cs) = ''true'' then Some (JBool True, drop 4 (c # cs))
          else if take 5 (c # cs) = ''false'' then Some (JBool False, drop 5 (c # cs))
          else map_option (\<lambda>(i, rest). (JInt i, rest)) (scan_int (c # cs)))"
| "parse_elements 0 acc s = None"
| "parse_elements (Suc n) acc s =
     (case parse_value n s of
        None \<Rightarrow> None
      | Some (v, rest) \<Rightarrow>
          (case skip_ws rest of
             [] \<Rightarrow> None
           | c # cs \<Rightarrow>
               if c = CHR '','' then parse_elements n (acc @ [v]) cs
               else if c = CHR '']'' then Some (JList (acc @ [v]), cs)
               else None))"
| "parse_members 0 acc s = None"
| "parse_members (Suc n) acc s =
     (case skip_ws s of
        [] \<Rightarrow> None
      | q # cs \<Rightarrow>
          if q \<noteq> CHR 0x22 then None
          else
            (case scan_string cs of
               None \<Rightarrow> None
             | Some (k, rest) \<Rightarrow>
                 (case skip_ws rest of
                    [] \<Rightarrow> None
                  | c # cs' \<Rightarrow>
                      if c \<noteq> CHR '':'' then None
                      else
                        (case parse_value n cs' of
                           None \<Rightarrow> None
                         | Some (v, rest') \<Rightarrow>
                             (case skip_ws rest' of
                                [] \<Rightarrow> None
                              | e # es \<Rightarrow>
                                  if e = CHR '','' then parse_members n (setitem acc k v) es
                                  else if e = CHR ''}'' then Some (JObj (setitem acc k v), es)
                                  else None)))))"

definition loads :: "string \<Rightarrow> json option" where
  "loads s =
     (case parse_value (Suc (length s)) s of
        None \<Rightarrow> None
      | Some (v, rest) \<Rightarrow> if skip_ws rest = [] then Some v else None)"

section \<open>The library functions the code calls\<close>

text \<open>
  Three functions of Python's standard library are parameters of the model, so that
  every theorem holds whatever they compute:
  \<^item> \<open>sha256_hexdigest b\<close> is \<^verbatim>\<open>hashlib.sha256(b).hexdigest()\<close> on the bytes \<open>b\<close>;
  \<^item> \<open>json_loads s\<close> is \<^verbatim>\<open>json.loads(s)\<close>, \<open>None\<close> when it raises \<^verbatim>\<open>JSONDecodeError\<close>
    (\<open>loads\<close> is what it computes on the texts of the model);
  \<^item> \<open>html_unescape s\<close> is \<^verbatim>\<open>html.unescape(s)\<close> on a string.
\<close>

record lib =
  sha256_hexdigest :: "string \<Rightarrow> string"
  json_loads :: "string \<Rightarrow> json option"
  html_unescape :: "string \<Rightarrow> string"

text \<open>\<^verbatim>\<open>s.encode()\<close>: UTF-8, two bytes for a code point from 128 to 255.\<close>

definition encode :: "string \<Rightarrow> string" where
  "encode s =
     concat (map (\<lambda>c. let n = (of_char c :: nat) in
                        if n < 128 then [c]
                        else [char_of (192 + n div 64), char_of (128 + n mod 64)]) s)"

section \<open>The cache (\<^verbatim>\<open>cache.py\<close>)\<close>

text \<open>
  The table \<^verbatim>\<open>cache\<close> is the list of its rows. The column \<^verbatim>\<open>id\<close> is left out: the
  code never reads it. \<^verbatim>\<open>key\<close> is declared \<^verbatim>\<open>UNIQUE\<close>: no two rows of a table
  share a key (\<open>unique_keys\<close>), and \<open>set_cache\<close> and \<open>cleanup\<close> keep it so.
\<close>

record row =
  key :: string
  created_at :: int
  data :: string

definition unique_keys :: "row list \<Rightarrow> bool" where
  "unique_keys rows = distinct (map key rows)"

definition DEFAULT_MAX_AGE :: int where
  "DEFAULT_MAX_AGE = 7200"

text \<open>
  \<^verbatim>\<open>SQLiteCache()\<close>: the class attribute \<^verbatim>\<open>_instance\<close> is \<open>None\<close> until the first call,
  which runs \<^verbatim>\<open>_init_db\<close> (the database file is deleted and the table created, empty);
  every later call returns the same instance.
\<close>

definition SQLiteCache :: "row list option \<Rightarrow> row list" where
  "SQLiteCache inst = (case inst of None \<Rightarrow> [] | Some rows \<Rightarrow> rows)"

definition make_key :: "lib \<Rightarrow> string \<Rightarrow> dict option \<Rightarrow> string" where
  "make_key L tool params =
     (let params_str = (case params of None \<Rightarrow> [] | Some p \<Rightarrow> json_dumps_canonical (JObj p));
          combined = tool @ params_str
      in sha256_hexdigest L (encode combined))"

text \<open>\<^verbatim>\<open>_cleanup\<close>, at the time \<open>now\<close> that \<^verbatim>\<open>int(time.time())\<close> reads.\<close>

definition cleanup :: "int \<Rightarrow> row list \<Rightarrow> row list" where
  "cleanup now rows =
     (let cutoff = now - DEFAULT_MAX_AGE
      in filter (\<lambda>r. \<not> created_at r < cutoff) rows)"

text \<open>
  \<^verbatim>\<open>get\<close> returns the value (\<open>JNull\<close> is Python's \<^verbatim>\<open>None\<close>, returned on a miss and on
  a text that does not decode) and the table it leaves.
\<close>

definition get :: "lib \<Rightarrow> int \<Rightarrow> string \<Rightarrow> dict option \<Rightarrow> row list \<Rightarrow> json \<times> row list" where
  "get L now tool params rows =
     (let rows' = cleanup now rows;
          k = make_key L tool params
      in (case find (\<lambda>r. key r = k) rows' of
            Some r \<Rightarrow> (case json_loads L (data r) of Some v \<Rightarrow> v | None \<Rightarrow> JNull)
          | None \<Rightarrow> JNull,
          rows'))"

text \<open>
  \<^verbatim>\<open>set\<close>: \<^verbatim>\<open>INSERT ... ON CONFLICT(key) DO UPDATE\<close>. A row with the key is updated in
  place, otherwise a new row is added.
\<close>

definition set_cache :: "lib \<Rightarrow> int \<Rightarrow> string \<Rightarrow> dict option \<Rightarrow> json \<Rightarrow> row list \<Rightarrow> row list" where
  "set_cache L now tool params d rows =
     (let k = make_key L tool params;
          created = now;
          data_json = json_dumps d
      in if \<exists>r \<in> set rows. key r = k
         then map (\<lambda>r. if key r = k then r\<lparr>created_at := created, data := data_json\<rparr> else r) rows
         else rows @ [\<lparr>key = k, created_at = created, data = data_json\<rparr>])"

section \<open>The search tool (\<^verbatim>\<open>GoogleSearch.py\<close>)\<close>

subsection \<open>Exceptions\<close>

text \<open>
  An exception carries the message that \<^verbatim>\<open>str(e)\<close> prints. \<open>AttributeError\<close> and
  \<open>TypeError\<close> are raised by the tool's own code on a value of the wrong type (the
  messages are CPython's); \<open>OtherException\<close> is one raised by the HTTP client.
\<close>

datatype exn = AttributeError string | TypeError string | OtherException string

fun str_exn :: "exn \<Rightarrow> string" where
  "str_exn (AttributeError m) = m"
| "str_exn (TypeError m) = m"
| "str_exn (OtherException m) = m"

definition quoted :: "string \<Rightarrow> string" where
  "quoted s = CHR 0x27 # s @ [CHR 0x27]"

text \<open>\<^verbatim>\<open>obj.get(k, default)\<close>: only a dict has the method.\<close>

definition dict_get :: "json \<Rightarrow> string \<Rightarrow> json \<Rightarrow> exn + json" where
  "dict_get obj k dflt =
     (case obj of
        JObj kvs \<Rightarrow> Inr (case map_of kvs k of Some v \<Rightarrow> v | None \<Rightarrow> dflt)
      | _ \<Rightarrow> Inl (AttributeError (quoted (type_name obj) @ '' object has no attribute '' @ quoted ''get'')))"

text \<open>
  \<^verbatim>\<open>for item in obj\<close>: the elements of a list, the keys of a dict, the characters of a
  string; nothing else is iterable.
\<close>

definition py_iter :: "json \<Rightarrow> exn + json list" where
  "py_iter obj =
     (case obj of
        JList xs \<Rightarrow> Inr xs
      | JObj kvs \<Rightarrow> Inr (map (\<lambda>kv. JStr (fst kv)) kvs)
      | JStr s \<Rightarrow> Inr (map (\<lambda>c. JStr [c]) s)
      | _ \<Rightarrow> Inl (TypeError (quoted (type_name obj) @ '' object is not iterable'')))"

subsection \<open>\<^verbatim>\<open>wrap_response\<close>\<close>

definition response_instruction :: string where
  "response_instruction =
     CHR 0x0A # ''    Review the results to provide the user with a clear and concise answer to their query.''
   @ CHR 0x0A # ''    If the search results provided do not answer the user request, advise the user of this.''
   @ CHR 0x0A # ''    You may offer to perform related searches for the user, and if confirmed, search new queries to continue assisting the user.''
   @ CHR 0x0A # ''    Your response must be in plain-text, without the use of any formatting, and should be kept to 2-3 sentences.''
   @ CHR 0x0A # ''    ''"

text \<open>
  \<^verbatim>\<open>response["instruction"] = ...\<close> succeeds on a dict; on any other value the
  assignment raises \<^verbatim>\<open>TypeError\<close>.
\<close>

definition wrap_response :: "json \<Rightarrow> exn + json" where
  "wrap_response response =
     (case response of
        JObj kvs \<Rightarrow> Inr (JObj (setitem kvs ''instruction'' (JStr response_instruction)))
      | JList xs \<Rightarrow> Inl (TypeError ''list indices must be integers or slices, not str'')
      | _ \<Rightarrow> Inl (TypeError (quoted (type_name response) @ '' object does not support item assignment'')))"

subsection \<open>\<^verbatim>\<open>cleanup_text\<close>\<close>

text \<open>
  \<^verbatim>\<open>re.sub(r"<[^>]+>", "", text)\<close>: from a \<^verbatim>\<open><\<close>, the characters up to the next \<^verbatim>\<open>>\<close>
  are removed with both brackets when there is at least one of them and the \<^verbatim>\<open>>\<close> exists.
\<close>

function strip_tags :: "string \<Rightarrow> string" where
  "strip_tags [] = []"
| "strip_tags (c # cs) =
     (if c = CHR ''<'' \<and> takeWhile (\<lambda>x. x \<noteq> CHR ''>'') cs \<noteq> [] \<and> dropWhile (\<lambda>x. x \<noteq> CHR ''>'') cs \<noteq> []
      then strip_tags (tl (dropWhile (\<lambda>x. x \<noteq> CHR ''>'') cs))
      else c # strip_tags cs)"
  by pat_completeness auto
termination
proof (relation "measure length")
  fix c :: char and cs :: string
  have "length (tl (dropWhile (\<lambda>x. x \<noteq> CHR ''>'') cs)) \<le> length cs"
    using length_dropWhile_le [of "\<lambda>x. x \<noteq> CHR ''>''" cs] by simp
  then show "(tl (dropWhile (\<lambda>x. x \<noteq> CHR ''>'') cs), c # cs) \<in> measure length"
    by simp
qed simp_all

text \<open>
  The characters below 256 that \<^verbatim>\<open>\s\<close> matches and \<^verbatim>\<open>str.strip\<close> removes: tab to carriage
  return, the four separators \<^verbatim>\<open>\x1c\<close> to \<^verbatim>\<open>\x1f\<close>, the space, \<^verbatim>\<open>\x85\<close> and \<^verbatim>\<open>\xa0\<close>.
\<close>

definition isspace :: "char \<Rightarrow> bool" where
  "isspace c =
     (let n = (of_char c :: nat)
      in (9 \<le> n \<and> n \<le> 13) \<or> (28 \<le> n \<and> n \<le> 32) \<or> n = 133 \<or> n = 160)"

text \<open>\<^verbatim>\<open>re.sub(r"\s+", " ", text)\<close>: every maximal run of white space becomes one space.\<close>

function collapse_spaces :: "string \<Rightarrow> string" where
  "collapse_spaces [] = []"
| "collapse_spaces (c # cs) =
     (if isspace c then CHR '' '' # collapse_spaces (dropWhile isspace cs)
      else c # collapse_spaces cs)"
  by pat_completeness auto
termination
proof (relation "measure length")
  fix c :: char and cs :: string
  show "(dropWhile isspace cs, c # cs) \<in> measure length"
    using length_dropWhile_le [of isspace cs] by simp
qed simp_all

definition strip :: "string \<Rightarrow> string" where
  "strip s = rev (dropWhile isspace (rev (dropWhile isspace s)))"

text \<open>
  \<^verbatim>\<open>cleanup_text\<close> is written for a string. On another value \<^verbatim>\<open>html.unescape\<close> first
  tests \<^verbatim>\<open>'&' not in s\<close>, which raises on a value that is no container; a list or a
  dict passes that test and \<^verbatim>\<open>re.sub\<close> then refuses it.
\<close>

definition cleanup_text :: "lib \<Rightarrow> json \<Rightarrow> exn + string" where
  "cleanup_text L text =
     (case text of
        JStr s \<Rightarrow>
          (let t1 = html_unescape L s;
               t2 = strip_tags t1;
               t3 = strip (collapse_spaces t2)
           in Inr t3)
      | JList xs \<Rightarrow> Inl (TypeError (''expected string or bytes-like object, got '' @ quoted ''list''))
      | JObj kvs \<Rightarrow> Inl (TypeError (''expected string or bytes-like object, got '' @ quoted ''dict''))
      | _ \<Rightarrow> Inl (TypeError (''argument of type '' @ quoted (type_name text) @ '' is not iterable'')))"

subsection \<open>\<^verbatim>\<open>async_call\<close>\<close>

text \<open>
  The merged configuration that \<^verbatim>\<open>_get_config\<close> returns, read at the three keys of
  \<^verbatim>\<open>const.py\<close>: \<^verbatim>\<open>config_data.get(KEY)\<close> is \<open>JNull\<close> for a key that is not there, and
  the result count is an integer when present.
\<close>

record config =
  google_cse_api_key :: json
  google_cse_cx :: json
  brave_num_results :: "int option"

text \<open>
  What \<^verbatim>\<open>session.get(url, params=params)\<close> gives: an exception, or a response with its
  status and what \<^verbatim>\<open>await resp.json()\<close> gives (an exception or the decoded body).
\<close>

datatype http = Raises exn | Response int "exn + json"

text \<open>The effects of a call, in the order they happen.\<close>

datatype event =
    CacheGet string "dict option"
  | HttpGet string dict
  | CacheSet string "dict option" json

text \<open>
  The loop over \<^verbatim>\<open>data.get("items", [])\<close>; \<open>results\<close> is the list built so far. An
  exception leaves the loop.
\<close>

fun collect_results :: "lib \<Rightarrow> json list \<Rightarrow> json list \<Rightarrow> exn + json list" where
  "collect_results L [] results = Inr results"
| "collect_results L (item # items) results =
     (case dict_get item ''title'' (JStr []) of
        Inl e \<Rightarrow> Inl e
      | Inr title \<Rightarrow>
          (case dict_get item ''snippet'' JNull of
             Inl e \<Rightarrow> Inl e
           | Inr plain \<Rightarrow>
               (case (if truthy plain then Inr plain else dict_get item ''htmlSnippet'' (JStr [])) of
                  Inl e \<Rightarrow> Inl e
                | Inr snippet \<Rightarrow>
                    (case cleanup_text L snippet of
                       Inl e \<Rightarrow> Inl e
                     | Inr cleaned_snippet \<Rightarrow>
                         collect_results L items
                           (results @ [JObj [(''title'', title), (''description'', JStr cleaned_snippet)]])))))"

text \<open>Lines 101 to 109: the results that a decoded body gives.\<close>

definition search_results :: "lib \<Rightarrow> json \<Rightarrow> exn + json list" where
  "search_results L body =
     (case dict_get body ''items'' (JList []) of
        Inl e \<Rightarrow> Inl e
      | Inr items \<Rightarrow>
          (case py_iter items of
             Inl e \<Rightarrow> Inl e
           | Inr xs \<Rightarrow> collect_results L xs []))"

definition error_envelope :: "string \<Rightarrow> json" where
  "error_envelope message = JObj [(''error'', JStr message)]"

text \<open>The handler \<^verbatim>\<open>except Exception as e\<close>.\<close>

definition web_search_error :: "exn \<Rightarrow> json" where
  "web_search_error e = error_envelope (''Error searching web: '' @ str_exn e)"

definition url :: string where
  "url = ''https://www.googleapis.com/customsearch/v1''"

text \<open>Lines 73 and 74: the result count, 2 when not configured, clamped to 1..10.\<close>

definition num_results :: "config \<Rightarrow> int" where
  "num_results config =
     max 1 (min (case brave_num_results config of None \<Rightarrow> 2 | Some n \<Rightarrow> n) 10)"

text \<open>Lines 81 to 86: the parameters of the request.\<close>

definition request_params :: "config \<Rightarrow> string \<Rightarrow> dict" where
  "request_params config query =
     [(''q'', JStr query), (''num'', JInt (num_results config)),
      (''key'', google_cse_api_key config), (''cx'', google_cse_cx config)]"

text \<open>Line 89: \<^verbatim>\<open>{k: v for k, v in params.items() if k != "key"}\<close>.\<close>

definition cache_key :: "dict \<Rightarrow> dict" where
  "cache_key params = filter (\<lambda>kv. fst kv \<noteq> ''key'') params"

text \<open>
  \<open>async_call L session_get now_get now_set config query inst\<close> returns the
  envelope, the class attribute \<^verbatim>\<open>SQLiteCache._instance\<close> after the call and the effects
  of the call. \<open>session_get\<close> is the remote side, \<open>now_get\<close> and \<open>now_set\<close> are the
  times that \<^verbatim>\<open>cache.get\<close> and \<^verbatim>\<open>cache.set\<close> read, \<open>query\<close> is
  \<^verbatim>\<open>tool_input.tool_args["query"]\<close>.
\<close>

definition async_call ::
  "lib \<Rightarrow> (string \<Rightarrow> dict \<Rightarrow> http) \<Rightarrow> int \<Rightarrow> int \<Rightarrow> config \<Rightarrow> string \<Rightarrow> row list option
     \<Rightarrow> json \<times> row list option \<times> event list" where
  "async_call L session_get now_get now_set config query inst =
     (let google_api_key = google_cse_api_key config;
          google_cx = google_cse_cx config
      in if \<not> truthy google_api_key \<or> \<not> truthy google_cx
         then (error_envelope ''Google Custom Search not configured'', inst, [])
         else
           (let params = request_params config query;
                ck = cache_key params;
                cache = SQLiteCache inst;
                looked_up = get L now_get ''google_cse_search'' (Some ck) cache;
                cached_response = fst looked_up;
                cache1 = snd looked_up;
                ev1 = [CacheGet ''google_cse_search'' (Some ck)]
            in if truthy cached_response
               then (case wrap_response cached_response of
                       Inr wrapped \<Rightarrow> (wrapped, Some cache1, ev1)
                     | Inl e \<Rightarrow> (web_search_error e, Some cache1, ev1))
               else
                 (let ev2 = ev1 @ [HttpGet url params]
                  in case session_get url params of
                       Raises e \<Rightarrow> (web_search_error e, Some cache1, ev2)
                     | Response status body \<Rightarrow>
                         if status = 200
                         then (case body of
                                 Inl e \<Rightarrow> (web_search_error e, Some cache1, ev2)
                               | Inr decoded \<Rightarrow>
                                   (case search_results L decoded of
                                      Inl e \<Rightarrow> (web_search_error e, Some cache1, ev2)
                                    | Inr results \<Rightarrow>
                                        (let response = JObj [(''results'',
                                               if results \<noteq> [] then JList results
                                               else JStr ''No results found'')]
                                         in if results \<noteq> []
                                            then (let cache2 = set_cache L now_set ''google_cse_search''
                                                                 (Some ck) response cache1;
                                                      ev3 = ev2 @ [CacheSet ''google_cse_search''
                                                                     (Some ck) response]
                                                  in case wrap_response response of
                                                       Inr wrapped \<Rightarrow> (wrapped, Some cache2, ev3)
                                                     | Inl e \<Rightarrow> (web_search_error e, Some cache2, ev3))
                                            else (response, Some cache1, ev2))))
                         else (error_envelope (''Search error: '' @ str_int status),
                               Some cache1, ev2))))"

text \<open>The key under which a cache operation of the trace reads or writes.\<close>

fun event_key :: "lib \<Rightarrow> event \<Rightarrow> string option" where
  "event_key L (CacheGet tool params) = Some (make_key L tool params)"
| "event_key L (CacheSet tool params d) = Some (make_key L tool params)"
| "event_key L (HttpGet u params) = None"

text \<open>The payloads that a trace stores, and the requests it sends.\<close>

fun stored :: "event \<Rightarrow> json option" where
  "stored (CacheSet tool params d) = Some d"
| "stored _ = None"


section \<open>A library for evaluation\<close>

text \<open>
  A concrete choice of the three library functions, for evaluating the model on
  examples: the digest marks its argument, the decoder is \<open>loads\<close>, and
  \<^verbatim>\<open>html.unescape\<close> leaves a text without entities as it is.
\<close>

definition sample_lib :: lib where
  "sample_lib =
     \<lparr>sha256_hexdigest = (\<lambda>b. ''#'' @ b), json_loads = loads, html_unescape = (\<lambda>s. s)\<rparr>"

text \<open>A configuration with both credentials, and a row stored at time 1000.\<close>

definition sample_config :: config where
  "sample_config = \<lparr>google_cse_api_key = JStr ''secret'', google_cse_cx = JStr ''cx'',
                     brave_num_results = Some 3\<rparr>"

definition old_row :: row where
  "old_row = \<lparr>key = ''0f'', created_at = 1000, data = ''{}''\<rparr>"

section \<open>The decoder reads back what \<^verbatim>\<open>json.dumps\<close> prints\<close>

lemma of_char_digit_char: "d < 10 \<Longrightarrow> (of_char (digit_char d) :: nat) = 48 + d"
  by (simp add: digit_char_def)

lemma is_digit_digit_char: "d < 10 \<Longrightarrow> is_digit (digit_char d)"
  by (simp add: is_digit_def of_char_digit_char)

lemma digit_val_digit_char: "d < 10 \<Longrightarrow> digit_val (digit_char d) = d"
  by (simp add: digit_val_def of_char_digit_char)

lemma digit_char_neq_zero: "0 < d \<Longrightarrow> d < 10 \<Longrightarrow> digit_char d \<noteq> CHR ''0''"
  using of_char_digit_char [of d] by (auto simp del: of_char_digit_char)

lemma digit_char_0: "digit_char 0 = CHR ''0''"
  by code_simp

lemma str_nat_nonempty: "str_nat n \<noteq> []"
  by (subst str_nat.simps) simp

lemma str_nat_digits: "c \<in> set (str_nat n) \<Longrightarrow> is_digit c"
proof (induction n arbitrary: c rule: str_nat.induct)
  case (1 n)
  show ?case
  proof (cases "n < 10")
    case True
    with "1.prems" show ?thesis
      by (subst (asm) str_nat.simps) (simp add: is_digit_digit_char)
  next
    case False
    with "1.prems" have "c \<in> set (str_nat (n div 10)) \<or> c = digit_char (n mod 10)"
      by (subst (asm) str_nat.simps) auto
    with False "1.IH" show ?thesis
      by (auto simp: is_digit_digit_char)
  qed
qed

lemma nat_of_digits_snoc: "nat_of_digits (ds @ [d]) = 10 * nat_of_digits ds + digit_val d"
  by (simp add: nat_of_digits_def)

lemma nat_of_digits_str_nat: "nat_of_digits (str_nat n) = n"
proof (induction n rule: str_nat.induct)
  case (1 n)
  show ?case
  proof (cases "n < 10")
    case True
    then show ?thesis
      by (subst str_nat.simps) (simp add: nat_of_digits_def digit_val_digit_char)
  next
    case False
    with "1.IH" have "nat_of_digits (str_nat (n div 10)) = n div 10" by simp
    with False show ?thesis
      by (subst str_nat.simps) (simp add: nat_of_digits_snoc digit_val_digit_char)
  qed
qed

lemma hd_str_nat: "0 < n \<Longrightarrow> hd (str_nat n) \<noteq> CHR ''0''"
proof (induction n rule: str_nat.induct)
  case (1 n)
  show ?case
  proof (cases "n < 10")
    case True
    with "1.prems" show ?thesis
      by (subst str_nat.simps) (simp add: digit_char_neq_zero)
  next
    case False
    then have "0 < n div 10" by simp
    with False "1.IH" have "hd (str_nat (n div 10)) \<noteq> CHR ''0''" by simp
    with False show ?thesis
      by (subst str_nat.simps) (simp add: str_nat_nonempty)
  qed
qed

lemma scan_nat_str_nat:
  assumes "rest = [] \<or> \<not> is_digit (hd rest)"
  shows "scan_nat (str_nat n @ rest) = Some (n, rest)"
proof (cases "n = 0")
  case True
  then show ?thesis
    by (simp add: scan_nat_def str_nat.simps [of 0] digit_char_0)
next
  case False
  obtain c cs where s: "str_nat n = c # cs"
    using str_nat_nonempty [of n] by (cases "str_nat n") auto
  have c0: "c \<noteq> CHR ''0''" using hd_str_nat [of n] False s by simp
  have cd: "is_digit c" using str_nat_digits [of c n] s by simp
  have tw: "takeWhile is_digit (str_nat n @ rest) = str_nat n"
    using assms str_nat_digits [of _ n]
    by (cases rest) (auto simp: takeWhile_append2 )
  have dw: "dropWhile is_digit (str_nat n @ rest) = rest"
    using assms str_nat_digits [of _ n]
    by (cases rest) (auto simp: dropWhile_append2)
  have val: "nat_of_digits (c # cs) = n"
    using nat_of_digits_str_nat [of n] s by simp
  have "scan_nat (c # cs @ rest) = Some (nat_of_digits (c # cs), rest)"
    using c0 cd tw dw s by (simp add: scan_nat_def del: takeWhile.simps dropWhile.simps)
  with val s show ?thesis by simp
qed

lemma scan_int_str_int:
  assumes "rest = [] \<or> \<not> is_digit (hd rest)"
  shows "scan_int (str_int i @ rest) = Some (i, rest)"
proof (cases "i < 0")
  case True
  then show ?thesis
    using scan_nat_str_nat [OF assms, of "nat (- i)"]
    by (simp add: scan_int_def str_int_def)
next
  case False
  obtain c cs where s: "str_nat (nat i) = c # cs"
    using str_nat_nonempty [of "nat i"] by (cases "str_nat (nat i)") auto
  have "is_digit c" using str_nat_digits [of c "nat i"] s by simp
  then have "c \<noteq> CHR ''-''" by (auto simp: is_digit_def)
  with False s show ?thesis
    using scan_nat_str_nat [OF assms, of "nat i"]
    by (simp add: scan_int_def str_int_def)
qed


lemma hex_val_hex_char: "d < 16 \<Longrightarrow> hex_val (hex_char d) = Some d"
  by (auto simp: hex_val_def hex_char_def Let_def)

lemma hex_val_zero: "hex_val (CHR ''0'') = Some 0"
  by (simp add: hex_val_def)

lemma of_char_less_256: "(of_char c :: nat) < 256"
  by (metis of_char_mod_256 mod_less_divisor zero_less_numeral)

lemma char_of_34: "char_of (34::nat) = CHR 0x22" by code_simp
lemma char_of_92: "char_of (92::nat) = CHR 0x5C" by code_simp
lemma char_of_8: "char_of (8::nat) = CHR 0x08" by code_simp
lemma char_of_12: "char_of (12::nat) = CHR 0x0C" by code_simp
lemma char_of_10: "char_of (10::nat) = CHR 0x0A" by code_simp
lemma char_of_13: "char_of (13::nat) = CHR 0x0D" by code_simp
lemma char_of_9: "char_of (9::nat) = CHR 0x09" by code_simp

lemmas char_of_consts = char_of_34 char_of_92 char_of_8 char_of_12 char_of_10 char_of_13 char_of_9

lemma scan_string_escape_char:
  "scan_string (escape_char c @ s) = cons_result c (scan_string s)"
proof -
  define n where "n = (of_char c :: nat)"
  have c: "char_of n = c" by (simp add: n_def)
  have n: "n < 256" by (simp add: n_def of_char_less_256)
  consider "n = 0x22" | "n = 0x5C" | "n = 0x08" | "n = 0x0C" | "n = 0x0A" | "n = 0x0D" | "n = 0x09"
    | "0x20 \<le> n" "n \<le> 0x7E" "n \<noteq> 0x22" "n \<noteq> 0x5C"
    | "n < 0x20" "n \<noteq> 0x08" "n \<noteq> 0x0C" "n \<noteq> 0x0A" "n \<noteq> 0x0D" "n \<noteq> 0x09"
    | "0x7E < n"
    by linarith
  then show ?thesis
  proof cases
    case 8
    then have "escape_char c = [c]" by (simp add: escape_char_def n_def Let_def)
    moreover have "c \<noteq> CHR 0x22" "c \<noteq> CHR 0x5C" "\<not> (of_char c :: nat) < 32"
      using 8 by (auto simp: n_def)
    ultimately show ?thesis by simp
  next
    case 9
    then have e: "escape_char c = [CHR 0x5C, CHR ''u'', CHR ''0'', CHR ''0'',
        hex_char (n div 16), hex_char (n mod 16)]"
      by (simp add: escape_char_def n_def Let_def)
    have "n div 16 < 16" using n by simp
    then show ?thesis
      using n by (simp add: e hex_val_hex_char hex_val_zero c)
  next
    case 10
    then have e: "escape_char c = [CHR 0x5C, CHR ''u'', CHR ''0'', CHR ''0'',
        hex_char (n div 16), hex_char (n mod 16)]"
      by (simp add: escape_char_def n_def Let_def)
    have "n div 16 < 16" using n by simp
    then show ?thesis
      using n by (simp add: e hex_val_hex_char hex_val_zero c)
  qed (simp_all add: escape_char_def n_def [symmetric] Let_def unescape_def cons_result_def
        c [symmetric] char_of_consts)
qed

lemma scan_string_encoded:
  "scan_string (concat (map escape_char s) @ CHR 0x22 # rest) = Some (s, rest)"
  by (induction s) (simp_all add: scan_string_escape_char cons_result_def)


definition no_digit_ahead :: "string \<Rightarrow> bool" where
  "no_digit_ahead rest = (rest = [] \<or> \<not> is_digit (hd rest))"

lemma skip_ws_Cons: "\<not> is_ws c \<Longrightarrow> skip_ws (c # cs) = c # cs"
  by (simp add: skip_ws_def)

lemma parse_value_space: "parse_value n (CHR '' '' # s) = parse_value n s"
  by (cases n) (simp_all add: skip_ws_def is_ws_def)

lemma parse_elements_space: "parse_elements n acc (CHR '' '' # s) = parse_elements n acc s"
  by (cases n) (simp_all add: parse_value_space)

lemma parse_members_space: "parse_members n acc (CHR '' '' # s) = parse_members n acc s"
  by (cases n) (simp_all add: skip_ws_def is_ws_def)

lemma setitem_fresh: "k \<notin> fst ` set acc \<Longrightarrow> setitem acc k v = acc @ [(k, v)]"
  by (induction acc k v rule: setitem.induct) auto

text \<open>The first character of a printed value: not white space, not a closing bracket.\<close>

definition value_start :: "char \<Rightarrow> bool" where
  "value_start c = (\<not> is_ws c \<and> c \<noteq> CHR '']'' \<and> c \<noteq> CHR ''}'')"

lemma is_digit_value_start: "is_digit c \<Longrightarrow> value_start c"
  by (auto simp: is_digit_def value_start_def is_ws_def)

lemma str_int_start: "\<exists>c cs. str_int i = c # cs \<and> value_start c"
proof -
  obtain c cs where s: "str_nat (nat \<bar>i\<bar>) = c # cs"
    using str_nat_nonempty [of "nat \<bar>i\<bar>"] by (cases "str_nat (nat \<bar>i\<bar>)") auto
  then have "is_digit c" using str_nat_digits [of c "nat \<bar>i\<bar>"] by simp
  then have "value_start c" by (rule is_digit_value_start)
  moreover have "value_start (CHR ''-'')" by (simp add: value_start_def is_ws_def)
  ultimately show ?thesis using s
    by (cases "i < 0") (auto simp: str_int_def abs_if)
qed

lemma dumps_start: "\<exists>c cs. dumps sk isep ksep v = c # cs \<and> value_start c"
  using str_int_start
  by (cases v) (auto simp: value_start_def is_ws_def encode_basestring_ascii_def)


lemma no_digit_ahead_simps:
  "no_digit_ahead (CHR '']'' # s)" "no_digit_ahead (CHR ''}'' # s)" "no_digit_ahead (CHR '','' # s)"
  "no_digit_ahead []"
  by (simp_all add: no_digit_ahead_def is_digit_def)

lemma skip_ws_simps:
  "skip_ws (CHR '']'' # s) = CHR '']'' # s" "skip_ws (CHR ''}'' # s) = CHR ''}'' # s"
  "skip_ws (CHR '','' # s) = CHR '','' # s" "skip_ws (CHR '':'' # s) = CHR '':'' # s"
  "skip_ws (CHR 0x22 # s) = CHR 0x22 # s" "skip_ws [] = []"
  by (simp_all add: skip_ws_def is_ws_def)

lemma parse_elements_join:
  assumes "\<And>x n rest. x \<in> set xs \<Longrightarrow> size x < n \<Longrightarrow> no_digit_ahead rest
             \<Longrightarrow> parse_value n (dumps False '', '' '': '' x @ rest) = Some (x, rest)"
    and "xs \<noteq> []" and "size_list size xs < m"
  shows "parse_elements m acc (join '', '' (map (dumps False '', '' '': '') xs) @ CHR '']'' # rest)
         = Some (JList (acc @ xs), rest)"
  using assms
proof (induction xs arbitrary: acc m)
  case Nil
  then show ?case by simp
next
  case (Cons x xs)
  from Cons.prems(3) obtain m' where m: "m = Suc m'" and mx: "size x < m'" and ms: "size_list size xs < m'"
    by (cases m) auto
  show ?case
  proof (cases xs)
    case Nil
    have "parse_value m' (dumps False '', '' '': '' x @ CHR '']'' # rest) = Some (x, CHR '']'' # rest)"
      using Cons.prems(1) [of x m' "CHR '']'' # rest"] mx by (simp add: no_digit_ahead_simps)
    then show ?thesis using Nil m by (simp add: skip_ws_simps)
  next
    case (Cons y ys)
    let ?tail = "join '', '' (map (dumps False '', '' '': '') xs) @ CHR '']'' # rest"
    have "parse_value m' (dumps False '', '' '': '' x @ CHR '','' # CHR '' '' # ?tail)
        = Some (x, CHR '','' # CHR '' '' # ?tail)"
      using Cons.prems(1) [of x m' "CHR '','' # CHR '' '' # ?tail"] mx
      by (simp add: no_digit_ahead_simps)
    moreover have "parse_elements m' (acc @ [x]) ?tail = Some (JList ((acc @ [x]) @ xs), rest)"
      using Cons.IH [of m' "acc @ [x]"] Cons.prems(1) ms Cons by simp
    ultimately show ?thesis using Cons m
      by (simp add: skip_ws_simps parse_elements_space)
  qed
qed

lemma parse_members_join:
  assumes "\<And>kv n rest. kv \<in> set kvs \<Longrightarrow> size (snd kv) < n \<Longrightarrow> no_digit_ahead rest
             \<Longrightarrow> parse_value n (dumps False '', '' '': '' (snd kv) @ rest) = Some (snd kv, rest)"
    and "kvs \<noteq> []" and "size_list (size_prod (\<lambda>x. 0) size) kvs < m"
    and "distinct (map fst (acc @ kvs))"
  shows "parse_members m acc
           (join '', '' (map (\<lambda>kv. encode_basestring_ascii (fst kv) @ '': ''
                                   @ dumps False '', '' '': '' (snd kv)) kvs) @ CHR ''}'' # rest)
         = Some (JObj (acc @ kvs), rest)"
  using assms
proof (induction kvs arbitrary: acc m)
  case Nil
  then show ?case by simp
next
  case (Cons kv kvs)
  obtain k v where kv: "kv = (k, v)" by (cases kv)
  from Cons.prems(3) kv obtain m' where m: "m = Suc m'" and mx: "size v < m'"
    and ms: "size_list (size_prod (\<lambda>x. 0) size) kvs < m'"
    by (cases m) auto
  have fresh: "setitem acc k v = acc @ [(k, v)]"
    using Cons.prems(4) kv by (intro setitem_fresh) auto
  have d: "distinct (map fst ((acc @ [(k, v)]) @ kvs))"
    using Cons.prems(4) kv by simp
  show ?case
  proof (cases kvs)
    case Nil
    have "parse_value m' (dumps False '', '' '': '' v @ CHR ''}'' # rest) = Some (v, CHR ''}'' # rest)"
      using Cons.prems(1) [of kv m' "CHR ''}'' # rest"] mx kv by (simp add: no_digit_ahead_simps)
    then show ?thesis using Nil m kv fresh
      by (simp add: skip_ws_simps encode_basestring_ascii_def scan_string_encoded parse_value_space)
  next
    case (Cons kv' kvs')
    let ?tail = "join '', '' (map (\<lambda>kv. encode_basestring_ascii (fst kv) @ '': ''
                                   @ dumps False '', '' '': '' (snd kv)) kvs) @ CHR ''}'' # rest"
    have "parse_value m' (dumps False '', '' '': '' v @ CHR '','' # CHR '' '' # ?tail)
        = Some (v, CHR '','' # CHR '' '' # ?tail)"
      using Cons.prems(1) [of kv m' "CHR '','' # CHR '' '' # ?tail"] mx kv
      by (simp add: no_digit_ahead_simps)
    moreover have "parse_members m' (acc @ [(k, v)]) ?tail = Some (JObj ((acc @ [(k, v)]) @ kvs), rest)"
      using Cons.IH [of m' "acc @ [(k, v)]"] Cons.prems(1) ms Cons d by simp
    ultimately show ?thesis using Cons m kv fresh
      by (simp add: skip_ws_simps encode_basestring_ascii_def scan_string_encoded
          parse_value_space parse_members_space)
  qed
qed


lemma join_Cons_start: "x = c # cs \<Longrightarrow> \<exists>cs'. join sep (x # xs) = c # cs'"
  by (cases xs) auto

lemma str_int_first: "\<exists>c cs. str_int i = c # cs \<and> (c = CHR ''-'' \<or> is_digit c)"
proof -
  obtain c cs where s: "str_nat (nat \<bar>i\<bar>) = c # cs"
    using str_nat_nonempty [of "nat \<bar>i\<bar>"] by (cases "str_nat (nat \<bar>i\<bar>)") auto
  then have "is_digit c" using str_nat_digits [of c "nat \<bar>i\<bar>"] by simp
  then show ?thesis using s
    by (cases "i < 0") (auto simp: str_int_def abs_if)
qed

lemma parse_value_number:
  assumes "s = c # cs" and "c = CHR ''-'' \<or> is_digit c"
  shows "parse_value (Suc n) s = map_option (\<lambda>(i, rest). (JInt i, rest)) (scan_int s)"
proof -
  have "\<not> is_ws c" "c \<noteq> CHR 0x22" "c \<noteq> CHR ''{''" "c \<noteq> CHR ''[''"
    "c \<noteq> CHR ''n''" "c \<noteq> CHR ''t''" "c \<noteq> CHR ''f''"
    using assms(2) by (auto simp: is_digit_def is_ws_def)
  then show ?thesis using assms(1)
    by (simp add: skip_ws_Cons)
qed

lemma parse_value_dumps:
  "wf_json v \<Longrightarrow> size v < n \<Longrightarrow> no_digit_ahead rest
     \<Longrightarrow> parse_value n (dumps False '', '' '': '' v @ rest) = Some (v, rest)"
proof (induction v arbitrary: n rest)
  case JNull
  then obtain m where "n = Suc m" by (cases n) auto
  then show ?case by (simp add: skip_ws_def is_ws_def)
next
  case (JBool b)
  then obtain m where "n = Suc m" by (cases n) auto
  then show ?case by (simp add: skip_ws_def is_ws_def)
next
  case (JInt i)
  then obtain m where n: "n = Suc m" by (cases n) auto
  obtain c cs where s: "str_int i = c # cs" and c: "c = CHR ''-'' \<or> is_digit c"
    using str_int_first [of i] by blast
  have "parse_value (Suc m) (str_int i @ rest)
      = map_option (\<lambda>(i, rest). (JInt i, rest)) (scan_int (str_int i @ rest))"
    using parse_value_number [of "str_int i @ rest" c "cs @ rest" m] s c by simp
  then show ?case
    using n scan_int_str_int [of rest i] JInt.prems(3) by (simp add: no_digit_ahead_def)
next
  case (JStr s)
  then obtain m where "n = Suc m" by (cases n) auto
  then show ?case
    by (simp add: skip_ws_simps encode_basestring_ascii_def scan_string_encoded)
next
  case (JList xs)
  from JList.prems(2) obtain m where n: "n = Suc m" and m: "size_list size xs < m"
    by (cases n) auto
  show ?case
  proof (cases xs)
    case Nil
    then show ?thesis using n by (simp add: skip_ws_def is_ws_def)
  next
    case (Cons x xs')
    let ?J = "join '', '' (map (dumps False '', '' '': '') xs)"
    obtain c cs where dx: "dumps False '', '' '': '' x = c # cs" and vs: "value_start c"
      using dumps_start by blast
    then obtain cs' where J: "?J = c # cs'"
      using join_Cons_start [of "dumps False '', '' '': '' x" c cs "'', ''"
          "map (dumps False '', '' '': '') xs'"] Cons by auto
    have el: "parse_elements m [] (?J @ CHR '']'' # rest) = Some (JList ([] @ xs), rest)"
    proof (rule parse_elements_join)
      fix x n rest
      assume "x \<in> set xs" "size x < n" "no_digit_ahead rest"
      with JList.IH [of x n rest] JList.prems(1)
      show "parse_value n (dumps False '', '' '': '' x @ rest) = Some (x, rest)"
        by (simp add: list_all_iff)
    next
      show "xs \<noteq> []" using Cons by simp
    next
      show "size_list size xs < m" by (rule m)
    qed
    have "skip_ws (?J @ CHR '']'' # rest) = c # cs' @ CHR '']'' # rest \<and> c \<noteq> CHR '']''"
      using J vs by (simp add: skip_ws_Cons value_start_def)
    with el J n show ?thesis
      by (simp add: skip_ws_def is_ws_def)
  qed
next
  case (JObj kvs)
  from JObj.prems(2) obtain m where n: "n = Suc m"
    and m: "size_list (size_prod (\<lambda>x. 0) size) kvs < m"
    by (cases n) auto
  show ?case
  proof (cases kvs)
    case Nil
    then show ?thesis using n by (simp add: skip_ws_def is_ws_def)
  next
    case (Cons kv kvs')
    let ?item = "\<lambda>kv. encode_basestring_ascii (fst kv) @ '': '' @ dumps False '', '' '': '' (snd kv)"
    let ?J = "join '', '' (map ?item kvs)"
    obtain cs' where J: "?J = CHR 0x22 # cs'"
      using join_Cons_start [of "?item kv" "CHR 0x22" _ "'', ''" "map ?item kvs'"] Cons
      by (auto simp: encode_basestring_ascii_def)
    have mem: "parse_members m [] (?J @ CHR ''}'' # rest) = Some (JObj ([] @ kvs), rest)"
    proof (rule parse_members_join)
      fix kv n rest
      assume "kv \<in> set kvs" "size (snd kv) < n" "no_digit_ahead rest"
      with JObj.IH [of kv "snd kv" n rest] JObj.prems(1)
      show "parse_value n (dumps False '', '' '': '' (snd kv) @ rest) = Some (snd kv, rest)"
        by (cases kv) (auto simp: list_all_iff)
    next
      show "kvs \<noteq> []" using Cons by simp
    next
      show "size_list (size_prod (\<lambda>x. 0) size) kvs < m" by (rule m)
    next
      show "distinct (map fst ([] @ kvs))" using JObj.prems(1) by simp
    qed
    have "skip_ws (?J @ CHR ''}'' # rest) = CHR 0x22 # cs' @ CHR ''}'' # rest"
      using J by (simp add: skip_ws_simps)
    with mem J n show ?thesis
      by (simp add: skip_ws_def is_ws_def)
  qed
qed

lemma size_list_le_join:
  assumes "\<And>x. x \<in> set xs \<Longrightarrow> f x \<le> length (g x)"
  shows "size_list f xs \<le> Suc (length (join '', '' (map g xs)))"
  using assms
proof (induction xs)
  case Nil
  then show ?case by simp
next
  case (Cons x xs)
  then show ?case by (cases xs) (auto simp: le_Suc_eq dest: meta_spec [of _ x])
qed

lemma size_le_length_dumps: "size v \<le> length (dumps False '', '' '': '' v)"
proof (induction v)
  case (JList xs)
  then have "size_list size xs \<le> Suc (length (join '', '' (map (dumps False '', '' '': '') xs)))"
    by (intro size_list_le_join) simp
  then show ?case by simp
next
  case (JObj kvs)
  have "size_list (size_prod (\<lambda>x. 0) size) kvs
      \<le> Suc (length (join '', '' (map (\<lambda>kv. encode_basestring_ascii (fst kv) @ '': ''
                                   @ dumps False '', '' '': '' (snd kv)) kvs)))"
  proof (rule size_list_le_join)
    fix kv assume "kv \<in> set kvs"
    with JObj.IH [of kv "snd kv"] show "size_prod (\<lambda>x. 0) size kv
       \<le> length (encode_basestring_ascii (fst kv) @ '': '' @ dumps False '', '' '': '' (snd kv))"
      by (cases kv) (auto simp: encode_basestring_ascii_def)
  qed
  then show ?case by simp
qed simp_all

lemma loads_json_dumps: "wf_json v \<Longrightarrow> loads (json_dumps v) = Some v"
  using parse_value_dumps [of v "Suc (length (json_dumps v))" "[]"] size_le_length_dumps [of v]
  by (simp add: loads_def json_dumps_def no_digit_ahead_def skip_ws_def)

section \<open>Properties of the cache\<close>

lemma set_cleanup:
  "set (cleanup now rows) = {r \<in> set rows. \<not> created_at r < now - DEFAULT_MAX_AGE}"
  by (auto simp: cleanup_def)


lemma map_key_update:
  "map key (map (\<lambda>r. if key r = k then r\<lparr>created_at := c, data := d\<rparr> else r) rows) = map key rows"
  by (induction rows) auto

lemma unique_keys_set_cache:
  assumes u: "unique_keys rows"
  shows "unique_keys (set_cache L now tool params d rows)"
proof (cases "\<exists>r \<in> set rows. key r = make_key L tool params")
  case True
  then have "set_cache L now tool params d rows =
      map (\<lambda>r. if key r = make_key L tool params
                then r\<lparr>created_at := now, data := json_dumps d\<rparr> else r) rows"
    by (simp add: set_cache_def Let_def)
  with u show ?thesis by (simp only: unique_keys_def map_key_update)
next
  case False
  then have "set_cache L now tool params d rows =
      rows @ [\<lparr>key = make_key L tool params, created_at = now, data = json_dumps d\<rparr>]"
    by (simp add: set_cache_def Let_def)
  with u False show ?thesis by (auto simp: unique_keys_def)
qed

lemma find_ex:
  "\<exists>x \<in> set xs. P x \<Longrightarrow> \<exists>r. find P xs = Some r \<and> P r \<and> r \<in> set xs"
  by (induction xs) auto


lemma find_key_absent:
  "unique_keys rows \<Longrightarrow> r \<in> set rows \<Longrightarrow> r \<notin> set (cleanup now rows)
     \<Longrightarrow> find (\<lambda>x. key x = key r) (cleanup now rows) = None"
  unfolding unique_keys_def cleanup_def
  by (auto simp: find_None_iff dest: inj_on_eq_iff[OF _ _ _, of key "set rows"] simp: distinct_map)

lemma snd_get: "snd (get L now tool params rows) = cleanup now rows"
  by (simp add: get_def Let_def)

lemma get_after_set:
  assumes "json_loads L (json_dumps payload) = Some payload"
    and "\<not> t_set < t_get - DEFAULT_MAX_AGE"
  shows "fst (get L t_get tool params (set_cache L t_set tool params payload rows)) = payload"
proof -
  let ?k = "make_key L tool params"
  let ?rows = "set_cache L t_set tool params payload rows"
  have all: "\<forall>r \<in> set ?rows. key r = ?k \<longrightarrow> created_at r = t_set \<and> data r = json_dumps payload"
    by (auto simp: set_cache_def Let_def)
  have ex: "\<exists>r \<in> set ?rows. key r = ?k"
  proof (cases "\<exists>r \<in> set rows. key r = ?k")
    case True
    then obtain r where "r \<in> set rows" "key r = ?k" by blast
    then have "r\<lparr>created_at := t_set, data := json_dumps payload\<rparr> \<in> set ?rows"
      by (force simp: set_cache_def Let_def)
    moreover have "key (r\<lparr>created_at := t_set, data := json_dumps payload\<rparr>) = ?k"
      using \<open>key r = ?k\<close> by simp
    ultimately show ?thesis by blast
  next
    case False
    then show ?thesis by (simp add: set_cache_def Let_def)
  qed
  from all ex assms(2) have "\<exists>r \<in> set (cleanup t_get ?rows). key r = ?k"
    by (auto simp: set_cleanup)
  then obtain r where r: "find (\<lambda>r. key r = ?k) (cleanup t_get ?rows) = Some r"
    and "key r = ?k" "r \<in> set (cleanup t_get ?rows)"
    using find_ex [of "cleanup t_get ?rows" "\<lambda>r. key r = ?k"] by blast
  then have "key r = ?k" "r \<in> set ?rows"
    by (auto simp: set_cleanup)
  with all have "data r = json_dumps payload" by blast
  with r assms(1) show ?thesis by (simp add: get_def Let_def)
qed

text \<open>
  C1. For every namespace, parameter mapping and payload (a JSON value whose dicts have
  distinct keys), whatever the table held before: after \<open>set_cache\<close> has stored the
  payload at time \<open>t_set\<close>, \<open>get\<close> with the same namespace and parameters at a time
  \<open>t_get\<close> no more than \<open>DEFAULT_MAX_AGE\<close> seconds later returns exactly that payload.
  \<^verbatim>\<open>json.loads\<close> is taken to decode the stored text as \<open>loads\<close> does.
\<close>

theorem set_then_get_roundtrip:
  assumes "wf_json payload"
    and "json_loads L (json_dumps payload) = loads (json_dumps payload)"
    and "\<not> t_set < t_get - DEFAULT_MAX_AGE"
  shows "fst (get L t_get tool params (set_cache L t_set tool params payload rows)) = payload"
proof -
  have "json_loads L (json_dumps payload) = Some payload"
    using assms(1,2) by (simp add: loads_json_dumps)
  then show ?thesis using assms(3) by (rule get_after_set)
qed

theorem set_then_get_roundtrip_witness:
  "fst (get sample_lib 8200 ''google_cse_search'' (Some [(''q'', JStr ''a'')])
          (set_cache sample_lib 1000 ''google_cse_search'' (Some [(''q'', JStr ''a'')])
             (JObj [(''results'', JList [JStr ''a''])]) []))
   = JObj [(''results'', JList [JStr ''a''])]"
  using set_then_get_roundtrip [of "JObj [(''results'', JList [JStr ''a''])]" sample_lib 1000 8200
      "''google_cse_search''" "Some [(''q'', JStr ''a'')]" "[]"]
  by (simp add: sample_lib_def DEFAULT_MAX_AGE_def)

text \<open>
  C2. A row of a table whose \<open>created_at\<close> is strictly older than \<open>now - DEFAULT_MAX_AGE\<close>
  (7200 seconds) is not in the table that \<open>get\<close> leaves, which holds no expired row at
  all; when the lookup is for that row's key, \<open>get\<close> returns \<^verbatim>\<open>None\<close>; and a value
  that \<open>get\<close> returns was decoded from a row that is not expired.
\<close>

theorem expired_entry_swept:
  assumes "r \<in> set rows" and "created_at r < now - DEFAULT_MAX_AGE" and "unique_keys rows"
  shows "r \<notin> set (snd (get L now tool params rows))
       \<and> (\<forall>r' \<in> set (snd (get L now tool params rows)). \<not> created_at r' < now - DEFAULT_MAX_AGE)
       \<and> (key r = make_key L tool params \<longrightarrow> fst (get L now tool params rows) = JNull)
       \<and> (fst (get L now tool params rows) \<noteq> JNull \<longrightarrow>
            (\<exists>r' \<in> set rows. \<not> created_at r' < now - DEFAULT_MAX_AGE
               \<and> key r' = make_key L tool params
               \<and> json_loads L (data r') = Some (fst (get L now tool params rows))))"
proof -
  have gone: "r \<notin> set (cleanup now rows)"
    using assms(2) by (simp add: set_cleanup)
  have miss: "fst (get L now tool params rows) = JNull" if "key r = make_key L tool params"
    using find_key_absent [OF assms(3) assms(1) gone] that
    by (simp add: get_def Let_def)
  have src: "\<exists>r' \<in> set rows. \<not> created_at r' < now - DEFAULT_MAX_AGE
               \<and> key r' = make_key L tool params
               \<and> json_loads L (data r') = Some (fst (get L now tool params rows))"
    if "fst (get L now tool params rows) \<noteq> JNull"
  proof -
    from that obtain r' where f: "find (\<lambda>x. key x = make_key L tool params) (cleanup now rows) = Some r'"
      and l: "json_loads L (data r') = Some (fst (get L now tool params rows))"
      by (auto simp: get_def Let_def split: option.splits)
    from f have "key r' = make_key L tool params" "r' \<in> set (cleanup now rows)"
      by (auto simp: find_Some_iff)
    with l show ?thesis by (auto simp: set_cleanup)
  qed
  show ?thesis using snd_get gone miss src by (simp add: set_cleanup)
qed

theorem expired_entry_swept_witness:
  "\<lparr>key = make_key sample_lib ''t'' None, created_at = 1000, data = ''{}''\<rparr>
     \<notin> set (snd (get sample_lib 8201 ''t'' None
              [\<lparr>key = make_key sample_lib ''t'' None, created_at = 1000, data = ''{}''\<rparr>]))
   \<and> fst (get sample_lib 8201 ''t'' None
              [\<lparr>key = make_key sample_lib ''t'' None, created_at = 1000, data = ''{}''\<rparr>]) = JNull"
  using expired_entry_swept [of "\<lparr>key = make_key sample_lib ''t'' None, created_at = 1000, data = ''{}''\<rparr>"
      "[\<lparr>key = make_key sample_lib ''t'' None, created_at = 1000, data = ''{}''\<rparr>]" 8201 sample_lib "''t''" None]
  by (simp add: unique_keys_def DEFAULT_MAX_AGE_def)






text \<open>
  C10. The key function is not injective: the namespace and the canonical text of the
  parameters are concatenated with nothing between them, so a namespace \<open>n\<close> with
  parameters \<open>p\<close> and the namespace \<open>n\<close> followed by the canonical text of \<open>p\<close>, with no
  parameters, are two different requests with one key.
\<close>

theorem make_key_collision:
  "make_key L n (Some p) = make_key L (n @ json_dumps_canonical (JObj p)) None
   \<and> (n, Some p) \<noteq> (n @ json_dumps_canonical (JObj p), None)"
  by (simp add: make_key_def)

theorem make_key_collision_witness:
  "make_key sample_lib ''t'' (Some []) = make_key sample_lib ''t{}'' None"
  using make_key_collision [of sample_lib "''t''" "[]"]
  by (simp add: json_dumps_canonical_def)

section \<open>Properties of the search tool\<close>

lemma map_of_setitem: "map_of (setitem kvs k v) k = Some v"
  by (induction kvs k v rule: setitem.induct) auto

lemma map_of_setitem_other: "k' \<noteq> k \<Longrightarrow> map_of (setitem kvs k v) k' = map_of kvs k'"
  by (induction kvs k v rule: setitem.induct) auto

lemma wrap_response_Inr:
  "wrap_response v = Inr w \<Longrightarrow>
     \<exists>kvs. v = JObj kvs \<and> w = JObj (setitem kvs ''instruction'' (JStr response_instruction))"
  by (cases v) (auto simp: wrap_response_def)

lemma set_cache_rows:
  "r \<in> set (set_cache L now tool params d rows) \<Longrightarrow> r \<in> set rows \<or> data r = json_dumps d"
  by (auto simp: set_cache_def Let_def split: if_splits)

lemma async_call_effects:
  assumes "truthy (google_cse_api_key config)" and "truthy (google_cse_cx config)"
  shows "snd (async_call L session_get now_get now_set config query inst)
          = (Some (cleanup now_get (SQLiteCache inst)),
             [CacheGet ''google_cse_search'' (Some (cache_key (request_params config query)))])
       \<or> snd (async_call L session_get now_get now_set config query inst)
          = (Some (cleanup now_get (SQLiteCache inst)),
             [CacheGet ''google_cse_search'' (Some (cache_key (request_params config query))),
              HttpGet url (request_params config query)])
       \<or> (\<exists>results. results \<noteq> [] \<and>
            snd (async_call L session_get now_get now_set config query inst)
            = (Some (set_cache L now_set ''google_cse_search''
                       (Some (cache_key (request_params config query)))
                       (JObj [(''results'', JList results)])
                       (cleanup now_get (SQLiteCache inst))),
               [CacheGet ''google_cse_search'' (Some (cache_key (request_params config query))),
                HttpGet url (request_params config query),
                CacheSet ''google_cse_search'' (Some (cache_key (request_params config query)))
                  (JObj [(''results'', JList results)])]))"
  using assms
  by (auto simp: async_call_def Let_def snd_get split: sum.splits http.splits)

lemma async_call_unconfigured:
  assumes "\<not> truthy (google_cse_api_key config) \<or> \<not> truthy (google_cse_cx config)"
  shows "async_call L session_get now_get now_set config query inst
         = (JObj [(''error'', JStr ''Google Custom Search not configured'')], inst, [])"
  using assms by (auto simp: async_call_def Let_def error_envelope_def)

lemma stored_nonempty_results:
  assumes e: "e \<in> set (snd (snd (async_call L session_get now_get now_set config query inst)))"
    and d: "stored e = Some d"
  shows "\<exists>results. results \<noteq> [] \<and> d = JObj [(''results'', JList results)]"
proof (cases "truthy (google_cse_api_key config) \<and> truthy (google_cse_cx config)")
  case configured: True
  then show ?thesis
    using async_call_effects [of config L session_get now_get now_set query inst] e d
    by auto
next
  case unconfigured: False
  then show ?thesis
    using async_call_unconfigured [of config L session_get now_get now_set query inst] e
    by auto
qed

lemma envelope_cases:
  "(\<exists>message. fst (async_call L session_get now_get now_set config query inst) = error_envelope message)
   \<or> (\<exists>kvs. fst (async_call L session_get now_get now_set config query inst)
          = JObj (setitem kvs ''instruction'' (JStr response_instruction)))
   \<or> (fst (async_call L session_get now_get now_set config query inst)
          = JObj [(''results'', JStr ''No results found'')]
       \<and> \<not> truthy (fst (get L now_get ''google_cse_search''
                (Some (cache_key (request_params config query))) (SQLiteCache inst)))
       \<and> (\<exists>body. session_get url (request_params config query) = Response 200 (Inr body)
              \<and> search_results L body = Inr []))"
  by (auto simp: async_call_def Let_def web_search_error_def
      split: sum.splits http.splits dest!: wrap_response_Inr)


lemmas eval_defs = async_call_def sample_config_def sample_lib_def Let_def get_def cleanup_def
      SQLiteCache_def search_results_def dict_get_def py_iter_def
      DEFAULT_MAX_AGE_def error_envelope_def request_params_def cache_key_def num_results_def
      url_def old_row_def

text \<open>
  C3 (amended). Every envelope is a dict. One without the key \<^verbatim>\<open>error\<close> carries the
  instruction string under \<^verbatim>\<open>instruction\<close>, on a cache hit and on a miss with results
  alike; the one exception is the zero-items path, a miss answered with status 200 and
  no item, which returns \<^verbatim>\<open>{results: "No results found"}\<close> without the instruction.
  The instruction is never stored: a row that the call adds or rewrites holds the text
  of \<^verbatim>\<open>{results: [...]}\<close> alone.
\<close>

theorem instruction_attached:
  "(\<exists>kvs. fst (async_call L session_get now_get now_set config query inst) = JObj kvs
     \<and> (map_of kvs ''error'' = None \<longrightarrow>
          map_of kvs ''instruction'' = Some (JStr response_instruction)
          \<or> (kvs = [(''results'', JStr ''No results found'')]
              \<and> \<not> truthy (fst (get L now_get ''google_cse_search''
                       (Some (cache_key (request_params config query))) (SQLiteCache inst)))
              \<and> (\<exists>body. session_get url (request_params config query) = Response 200 (Inr body)
                     \<and> search_results L body = Inr []))))
   \<and> (\<forall>r \<in> set (SQLiteCache (fst (snd (async_call L session_get now_get now_set config query inst)))).
         r \<in> set (SQLiteCache inst)
         \<or> (\<exists>results. data r = json_dumps (JObj [(''results'', JList results)])))"
proof (rule conjI)
  show "\<exists>kvs. fst (async_call L session_get now_get now_set config query inst) = JObj kvs
     \<and> (map_of kvs ''error'' = None \<longrightarrow>
          map_of kvs ''instruction'' = Some (JStr response_instruction)
          \<or> (kvs = [(''results'', JStr ''No results found'')]
              \<and> \<not> truthy (fst (get L now_get ''google_cse_search''
                       (Some (cache_key (request_params config query))) (SQLiteCache inst)))
              \<and> (\<exists>body. session_get url (request_params config query) = Response 200 (Inr body)
                     \<and> search_results L body = Inr [])))"
    using envelope_cases [of L session_get now_get now_set config query inst]
    by (auto simp: error_envelope_def map_of_setitem)
next
  show "\<forall>r \<in> set (SQLiteCache (fst (snd (async_call L session_get now_get now_set config query inst)))).
         r \<in> set (SQLiteCache inst)
         \<or> (\<exists>results. data r = json_dumps (JObj [(''results'', JList results)]))"
  proof (cases "truthy (google_cse_api_key config) \<and> truthy (google_cse_cx config)")
    case configured: True
    then show ?thesis
      using async_call_effects [of config L session_get now_get now_set query inst]
      by (auto simp: SQLiteCache_def set_cleanup dest!: set_cache_rows split: option.splits)
  next
    case unconfigured: False
    then show ?thesis
      using async_call_unconfigured [of config L session_get now_get now_set query inst]
      by auto
  qed
qed

theorem instruction_attached_witness:
  "\<exists>kvs. fst (async_call sample_lib
               (\<lambda>u p. Response 200 (Inr (JObj [(''items'', JList [JObj [(''title'', JStr ''T'')]])])))
               1000 1000 sample_config ''weather today'' None) = JObj kvs
     \<and> map_of kvs ''error'' = None
     \<and> map_of kvs ''instruction'' = Some (JStr response_instruction)"
  using instruction_attached [of sample_lib
      "\<lambda>u p. Response 200 (Inr (JObj [(''items'', JList [JObj [(''title'', JStr ''T'')]])]))"
      1000 1000 sample_config "''weather today''" None]
  by (simp add: eval_defs cleanup_text_def wrap_response_def strip_def)

text \<open>
  The claim as first stated fails on the zero-items path: with status 200 and an empty
  item list the envelope has neither the key \<^verbatim>\<open>error\<close> nor the key \<^verbatim>\<open>instruction\<close>.
\<close>

theorem no_results_without_instruction:
  "fst (async_call sample_lib (\<lambda>u p. Response 200 (Inr (JObj [(''items'', JList [])])))
          1000 1000 sample_config ''weather today'' None)
     = JObj [(''results'', JStr ''No results found'')]
   \<and> map_of [(''results'', JStr ''No results found'')] ''error'' = None
   \<and> map_of [(''results'', JStr ''No results found'')] ''instruction'' = None"
  by (simp add: async_call_def sample_config_def sample_lib_def Let_def get_def cleanup_def
      SQLiteCache_def search_results_def dict_get_def py_iter_def)

text \<open>
  C5. Two invocations with the same query, the same result count and the same search
  engine id, whose configurations differ in the API key, derive the same parameter
  mapping for the cache, which has no entry \<^verbatim>\<open>key\<close>; every cache operation of either
  invocation uses the one key computed from the query, the count and the engine id.
\<close>

theorem cache_key_excludes_credential:
  assumes "truthy (google_cse_api_key c1)" and "truthy (google_cse_api_key c2)"
    and "truthy (google_cse_cx c1)" and "google_cse_cx c2 = google_cse_cx c1"
    and "num_results c2 = num_results c1"
  shows "cache_key (request_params c1 query) = cache_key (request_params c2 query)
       \<and> ''key'' \<notin> fst ` set (cache_key (request_params c1 query))
       \<and> set (List.map_filter (event_key L) (snd (snd (async_call L S1 tg1 ts1 c1 query i1))))
         = {make_key L ''google_cse_search''
              (Some [(''q'', JStr query), (''num'', JInt (num_results c1)), (''cx'', google_cse_cx c1)])}
       \<and> set (List.map_filter (event_key L) (snd (snd (async_call L S2 tg2 ts2 c2 query i2))))
         = {make_key L ''google_cse_search''
              (Some [(''q'', JStr query), (''num'', JInt (num_results c1)), (''cx'', google_cse_cx c1)])}"
proof -
  have ck1: "cache_key (request_params c1 query)
      = [(''q'', JStr query), (''num'', JInt (num_results c1)), (''cx'', google_cse_cx c1)]"
    by (simp add: cache_key_def request_params_def)
  have ck2: "cache_key (request_params c2 query)
      = [(''q'', JStr query), (''num'', JInt (num_results c1)), (''cx'', google_cse_cx c1)]"
    using assms(4,5) by (simp add: cache_key_def request_params_def)
  have t1: "set (List.map_filter (event_key L) (snd (snd (async_call L S1 tg1 ts1 c1 query i1))))
      = {make_key L ''google_cse_search'' (Some (cache_key (request_params c1 query)))}"
    using async_call_effects [OF assms(1,3), of L S1 tg1 ts1 query i1]
    by (auto simp: List.map_filter_simps)
  have cx2: "truthy (google_cse_cx c2)" using assms(3,4) by simp
  have t2: "set (List.map_filter (event_key L) (snd (snd (async_call L S2 tg2 ts2 c2 query i2))))
      = {make_key L ''google_cse_search'' (Some (cache_key (request_params c2 query)))}"
    using async_call_effects [OF assms(2) cx2, of L S2 tg2 ts2 query i2]
    by (auto simp: List.map_filter_simps)
  show ?thesis using t1 t2 by (simp add: ck1 ck2)
qed

theorem cache_key_excludes_credential_witness:
  "cache_key (request_params sample_config ''weather today'')
     = cache_key (request_params (sample_config\<lparr>google_cse_api_key := JStr ''rotated''\<rparr>) ''weather today'')
   \<and> set (List.map_filter (event_key sample_lib)
        (snd (snd (async_call sample_lib (\<lambda>u p. Response 500 (Inl (OtherException [])))
                     1000 1000 sample_config ''weather today'' None))))
     = set (List.map_filter (event_key sample_lib)
        (snd (snd (async_call sample_lib (\<lambda>u p. Response 200 (Inr (JObj [])))
                     2000 2000 (sample_config\<lparr>google_cse_api_key := JStr ''rotated''\<rparr>)
                     ''weather today'' None))))"
  using cache_key_excludes_credential [of sample_config
      "sample_config\<lparr>google_cse_api_key := JStr ''rotated''\<rparr>" "''weather today''" sample_lib
      "\<lambda>u p. Response 500 (Inl (OtherException []))" 1000 1000 None
      "\<lambda>u p. Response 200 (Inr (JObj []))" 2000 2000 None]
  by (simp add: sample_config_def num_results_def)

text \<open>
  C6. When the API key or the search engine id is absent from the configuration (or
  empty), the call returns \<^verbatim>\<open>{error: "Google Custom Search not configured"}\<close>, the cache
  instance is what it was and the trace is empty: no cache operation, no request.
\<close>

theorem missing_credentials:
  assumes "\<not> truthy (google_cse_api_key config) \<or> \<not> truthy (google_cse_cx config)"
  shows "async_call L session_get now_get now_set config query inst
         = (JObj [(''error'', JStr ''Google Custom Search not configured'')], inst, [])"
  using assms by (auto simp: async_call_def Let_def error_envelope_def)

theorem missing_credentials_witness:
  "async_call sample_lib (\<lambda>u p. Raises (OtherException ''unreachable'')) 1000 1000
     \<lparr>google_cse_api_key = JNull, google_cse_cx = JStr ''cx'', brave_num_results = None\<rparr>
     ''weather today'' (Some [old_row])
   = (JObj [(''error'', JStr ''Google Custom Search not configured'')], Some [old_row], [])"
  using missing_credentials [of
      "\<lparr>google_cse_api_key = JNull, google_cse_cx = JStr ''cx'', brave_num_results = None\<rparr>"
      sample_lib "\<lambda>u p. Raises (OtherException ''unreachable'')" 1000 1000 "''weather today''"
      "Some [old_row]"]
  by simp

text \<open>
  C7. On a cache miss, when the remote side answers with status 200 and the body gives
  no result item, the call returns \<^verbatim>\<open>{results: "No results found"}\<close> and stores nothing:
  the table is the one the lookup left and the trace has the lookup and the request
  only. In every invocation, a payload that is stored is \<^verbatim>\<open>{results: [...]}\<close> with a
  list that is not empty.
\<close>

theorem empty_results_not_cached:
  assumes "truthy (google_cse_api_key config)" and "truthy (google_cse_cx config)"
    and "\<not> truthy (fst (get L now_get ''google_cse_search''
                (Some (cache_key (request_params config query))) (SQLiteCache inst)))"
    and "session_get url (request_params config query) = Response 200 (Inr body)"
    and "search_results L body = Inr []"
  shows "async_call L session_get now_get now_set config query inst
         = (JObj [(''results'', JStr ''No results found'')],
            Some (cleanup now_get (SQLiteCache inst)),
            [CacheGet ''google_cse_search'' (Some (cache_key (request_params config query))),
             HttpGet url (request_params config query)])
       \<and> (\<forall>S t t' c q i. \<forall>e \<in> set (snd (snd (async_call L S t t' c q i))).
            \<forall>d. stored e = Some d \<longrightarrow> (\<exists>results. results \<noteq> [] \<and> d = JObj [(''results'', JList results)]))"
proof -
  have "async_call L session_get now_get now_set config query inst
         = (JObj [(''results'', JStr ''No results found'')],
            Some (cleanup now_get (SQLiteCache inst)),
            [CacheGet ''google_cse_search'' (Some (cache_key (request_params config query))),
             HttpGet url (request_params config query)])"
    using assms by (simp add: async_call_def Let_def snd_get)
  then show ?thesis using stored_nonempty_results by blast
qed

theorem empty_results_not_cached_witness:
  "async_call sample_lib (\<lambda>u p. Response 200 (Inr (JObj [(''items'', JList [])])))
     8201 8201 sample_config ''weather today'' (Some [old_row])
   = (JObj [(''results'', JStr ''No results found'')], Some [],
      [CacheGet ''google_cse_search''
         (Some [(''q'', JStr ''weather today''), (''num'', JInt 3), (''cx'', JStr ''cx'')]),
       HttpGet url [(''q'', JStr ''weather today''), (''num'', JInt 3),
                    (''key'', JStr ''secret''), (''cx'', JStr ''cx'')]])"
  using empty_results_not_cached [of sample_config sample_lib 8201 "''weather today''"
      "Some [old_row]" "\<lambda>u p. Response 200 (Inr (JObj [(''items'', JList [])]))"
      "JObj [(''items'', JList [])]" 8201]
  by (simp add: eval_defs)




end
